theory Spec2Isabelle
  imports Complex_Main "HOL-Library.Multiset"
begin

section \<open>Python values\<close>

text \<open>
  The program is \<^verbatim>\<open>heredity.py\<close>. Its numbers are Python floats; they are modelled by
  \<^typ>\<open>real\<close>, so every statement below is about exact arithmetic and says nothing on
  rounding. A Python \<^verbatim>\<open>dict\<close> is an association list in insertion order whose keys are
  distinct; a Python \<^verbatim>\<open>set\<close> is the list of its elements in the order in which it is
  iterated (Python leaves that order open). The two exceptions the program can raise are
  values of \<open>error\<close>; a function that can raise returns \<open>error + 'a\<close>.
\<close>

datatype error = KeyError | ZeroDivisionError

type_synonym ('k, 'v) dict = "('k \<times> 'v) list"

fun bind_err :: "error + 'a \<Rightarrow> ('a \<Rightarrow> error + 'b) \<Rightarrow> error + 'b" where
  "bind_err (Inl e) f = Inl e"
| "bind_err (Inr x) f = f x"

definition dict_keys :: "('k, 'v) dict \<Rightarrow> 'k list" where
  "dict_keys d = map fst d"

text \<open>\<^verbatim>\<open>d[k]\<close> raises \<^verbatim>\<open>KeyError\<close> on a missing key.\<close>

definition getitem :: "('k, 'v) dict \<Rightarrow> 'k \<Rightarrow> error + 'v" where
  "getitem d k = (case map_of d k of None \<Rightarrow> Inl KeyError | Some v \<Rightarrow> Inr v)"

text \<open>\<^verbatim>\<open>d[k] = v\<close> replaces the value under an existing key and appends a new key.\<close>

fun setitem :: "('k, 'v) dict \<Rightarrow> 'k \<Rightarrow> 'v \<Rightarrow> ('k, 'v) dict" where
  "setitem [] k v = [(k, v)]"
| "setitem ((k', v') # d) k v =
     (if k' = k then (k', v) # d else (k', v') # setitem d k v)"

text \<open>\<^verbatim>\<open>d[k] += p\<close> reads the old value first, so it raises on a missing key.\<close>

definition dict_add :: "('k, real) dict \<Rightarrow> 'k \<Rightarrow> real \<Rightarrow> error + ('k, real) dict" where
  "dict_add d k p = bind_err (getitem d k) (\<lambda>v. Inr (setitem d k (v + p)))"

text \<open>\<^verbatim>\<open>set(xs)\<close> and the difference \<^verbatim>\<open>s - t\<close> of two sets.\<close>

definition py_set :: "'a list \<Rightarrow> 'a list" where
  "py_set xs = remdups xs"

definition set_minus :: "'a list \<Rightarrow> 'a list \<Rightarrow> 'a list" where
  "set_minus s t = filter (\<lambda>x. x \<notin> set t) s"

text \<open>
  A \<^verbatim>\<open>for\<close> loop that threads a state through its body and stops at the first
  exception.
\<close>

fun for_each :: "('a \<Rightarrow> 's \<Rightarrow> error + 's) \<Rightarrow> 'a list \<Rightarrow> 's \<Rightarrow> error + 's" where
  "for_each body [] s = Inr s"
| "for_each body (x # xs) s = bind_err (body x s) (for_each body xs)"

text \<open>
  A loop \<^verbatim>\<open>for k in d: d[k] = body(k, d[k])\<close> that rewrites every entry of a dict in place,
  in the order of its keys, and stops at the first exception.
\<close>

fun for_items :: "('k \<Rightarrow> 'v \<Rightarrow> error + 'v) \<Rightarrow> ('k, 'v) dict \<Rightarrow> error + ('k, 'v) dict" where
  "for_items body [] = Inr []"
| "for_items body ((k, v) # d) =
     bind_err (body k v) (\<lambda>v'. bind_err (for_items body d) (\<lambda>d'. Inr ((k, v') # d')))"

section \<open>The tables \<^verbatim>\<open>PROBS\<close>\<close>

definition PROBS_gene :: "(nat, real) dict" where
  "PROBS_gene = [(2, 0.01), (1, 0.03), (0, 0.96)]"

definition PROBS_trait :: "(nat, (bool, real) dict) dict" where
  "PROBS_trait =
     [(2, [(True, 0.65), (False, 0.35)]),
      (1, [(True, 0.56), (False, 0.44)]),
      (0, [(True, 0.01), (False, 0.99)])]"

definition PROBS_mutation :: real where
  "PROBS_mutation = 0.01"

section \<open>The population\<close>

record person =
  name :: string
  mother :: "string option"
  father :: "string option"
  trait :: "bool option"

type_synonym people = "(string, person) dict"

text \<open>
  The two accumulators \<^verbatim>\<open>probabilities[person]["gene"]\<close> and
  \<^verbatim>\<open>probabilities[person]["trait"]\<close> of one person; the second field cannot be called
  \<open>trait\<close> again.
\<close>

record distribution =
  gene_dist :: "(nat, real) dict"
  trait_dist :: "(bool, real) dict"

type_synonym table = "(string, distribution) dict"

section \<open>\<^verbatim>\<open>powerset\<close>\<close>

text \<open>
  \<^verbatim>\<open>itertools.combinations(s, r)\<close>: the sublists of length \<open>r\<close>, in the order of the
  positions they take their elements from.
\<close>

fun combinations :: "'a list \<Rightarrow> nat \<Rightarrow> 'a list list" where
  "combinations xs 0 = [[]]"
| "combinations [] (Suc r) = []"
| "combinations (x # xs) (Suc r) =
     map ((#) x) (combinations xs r) @ combinations xs (Suc r)"

definition powerset :: "'a list \<Rightarrow> 'a list list" where
  "powerset s = concat (map (combinations s) [0..<length s + 1])"

section \<open>\<^verbatim>\<open>person_prob\<close>, \<^verbatim>\<open>trait_prob\<close> and \<^verbatim>\<open>joint_probability\<close>\<close>

definition person_prob :: "string \<Rightarrow> string list \<Rightarrow> string list \<Rightarrow> real" where
  "person_prob person_name one_gene_names two_genes_names =
     (if person_name \<in> set two_genes_names then 0.99
      else if person_name \<in> set one_gene_names then 0.5 * 0.99
      else PROBS_mutation)"

text \<open>
  The loop of \<^verbatim>\<open>trait_prob\<close> runs over the entries of \<^verbatim>\<open>prob_dict\<close>; the state is
  \<^verbatim>\<open>product_\<close>.
\<close>

definition trait_prob :: "(string, real) dict \<Rightarrow> nat \<Rightarrow> string list \<Rightarrow> error + real" where
  "trait_prob prob_dict num_copies have_trait =
     for_each (\<lambda>(nm, p) product_acc.
        bind_err (getitem PROBS_trait num_copies) (\<lambda>row.
        bind_err (getitem row (nm \<in> set have_trait)) (\<lambda>t.
        Inr (product_acc * (p * t)))))
       prob_dict 1"

text \<open>
  The bodies of the three loops of \<^verbatim>\<open>joint_probability\<close>, for one \<^verbatim>\<open>name\<close> (written
  \<open>nm\<close>, since \<open>name\<close> is a field of \<open>person\<close>). The test
  \<^verbatim>\<open>father == None or mother == None\<close> is the last branch of the \<open>case\<close>: it is taken
  unless both parents are recorded.
\<close>

definition one_gene_body :: "people \<Rightarrow> string list \<Rightarrow> string list \<Rightarrow> string \<Rightarrow> error + real" where
  "one_gene_body people one_gene two_genes nm =
     bind_err (getitem people nm) (\<lambda>r.
       case (father r, mother r) of
         (Some father', Some mother') \<Rightarrow>
           (let poppa_p = person_prob father' one_gene two_genes;
                momma_p = person_prob mother' one_gene two_genes
            in Inr (poppa_p * (1 - momma_p) + momma_p * (1 - poppa_p)))
       | _ \<Rightarrow> getitem PROBS_gene 1)"

definition two_genes_body :: "people \<Rightarrow> string list \<Rightarrow> string list \<Rightarrow> string \<Rightarrow> error + real" where
  "two_genes_body people one_gene two_genes nm =
     bind_err (getitem people nm) (\<lambda>r.
       case (father r, mother r) of
         (Some father', Some mother') \<Rightarrow>
           (let poppa_p = person_prob father' one_gene two_genes;
                momma_p = person_prob mother' one_gene two_genes
            in Inr (poppa_p * momma_p))
       | _ \<Rightarrow> getitem PROBS_gene 2)"

definition zero_gene_body :: "people \<Rightarrow> string list \<Rightarrow> string list \<Rightarrow> string \<Rightarrow> error + real" where
  "zero_gene_body people one_gene two_genes nm =
     bind_err (getitem people nm) (\<lambda>r.
       case (father r, mother r) of
         (Some father', Some mother') \<Rightarrow>
           (let poppa_p = person_prob father' one_gene two_genes;
                momma_p = person_prob mother' one_gene two_genes
            in Inr ((1 - poppa_p) * (1 - momma_p)))
       | _ \<Rightarrow> getitem PROBS_gene 0)"

text \<open>One of the three loops: it fills a dict \<^verbatim>\<open>name: probability\<close>.\<close>

definition fill_p :: "(string \<Rightarrow> error + real) \<Rightarrow> string list \<Rightarrow> error + (string, real) dict" where
  "fill_p body names =
     for_each (\<lambda>nm d. bind_err (body nm) (\<lambda>p. Inr (setitem d nm p))) names []"

definition joint_probability ::
  "people \<Rightarrow> string list \<Rightarrow> string list \<Rightarrow> string list \<Rightarrow> error + real" where
  "joint_probability people one_gene two_genes have_trait =
     (let zero_gene =
        py_set [nm \<leftarrow> dict_keys people. nm \<notin> set one_gene \<and> nm \<notin> set two_genes]
      in
        bind_err (fill_p (one_gene_body people one_gene two_genes) one_gene) (\<lambda>one_gene_p.
        bind_err (fill_p (two_genes_body people one_gene two_genes) two_genes) (\<lambda>two_genes_p.
        bind_err (fill_p (zero_gene_body people one_gene two_genes) zero_gene) (\<lambda>zero_gene_p.
        for_each (\<lambda>(index, prob_dict) joint_p.
            bind_err (trait_prob prob_dict index have_trait) (\<lambda>t. Inr (joint_p * t)))
          (enumerate 0 [zero_gene_p, one_gene_p, two_genes_p]) 1))))"

section \<open>\<^verbatim>\<open>update\<close>\<close>

definition update ::
  "table \<Rightarrow> string list \<Rightarrow> string list \<Rightarrow> string list \<Rightarrow> real \<Rightarrow> error + table" where
  "update probabilities one_gene two_genes have_trait p =
     for_items (\<lambda>person d.
        bind_err (dict_add (trait_dist d) (person \<in> set have_trait) p) (\<lambda>t.
        bind_err (dict_add (gene_dist d)
                    (if person \<in> set one_gene then 1
                     else if person \<in> set two_genes then 2
                     else 0) p) (\<lambda>g.
        Inr (d\<lparr>gene_dist := g, trait_dist := t\<rparr>))))
       probabilities"

section \<open>\<^verbatim>\<open>get_dist_sum\<close> and \<^verbatim>\<open>normalize\<close>\<close>

definition get_dist_sum :: "('k, real) dict \<Rightarrow> real" where
  "get_dist_sum dist' = fold (\<lambda>(item, v) sum_acc. sum_acc + v) dist' 0"

text \<open>
  The innermost loop divides every entry by \<^verbatim>\<open>sum_\<close>, which was computed before the loop.
  Python's \<^verbatim>\<open>/\<close> raises \<^verbatim>\<open>ZeroDivisionError\<close> when the divisor is zero, for integers and
  for floats alike.
\<close>

definition normalize_dist :: "('k, real) dict \<Rightarrow> error + ('k, real) dict" where
  "normalize_dist dist' =
     (let sum_acc = get_dist_sum dist'
      in for_items (\<lambda>item v. if sum_acc = 0 then Inl ZeroDivisionError else Inr (v / sum_acc)) dist')"

text \<open>
  The middle loop visits the two distributions of a person in the order of the dict
  literal of \<^verbatim>\<open>main\<close>: \<^verbatim>\<open>"gene"\<close>, then \<^verbatim>\<open>"trait"\<close>.
\<close>

definition normalize :: "table \<Rightarrow> error + table" where
  "normalize probabilities =
     for_items (\<lambda>person_name d.
        bind_err (normalize_dist (gene_dist d)) (\<lambda>g.
        bind_err (normalize_dist (trait_dist d)) (\<lambda>t.
        Inr (d\<lparr>gene_dist := g, trait_dist := t\<rparr>))))
       probabilities"

section \<open>\<^verbatim>\<open>main\<close>\<close>

text \<open>The table \<^verbatim>\<open>probabilities\<close> as \<^verbatim>\<open>main\<close> creates it.\<close>

definition init_probabilities :: "people \<Rightarrow> table" where
  "init_probabilities people =
     map (\<lambda>(person, r). (person,
            \<lparr>gene_dist = [(2, 0), (1, 0), (0, 0)], trait_dist = [(True, 0), (False, 0)]\<rparr>))
         people"

text \<open>
  The test \<^verbatim>\<open>fails_evidence\<close>: \<^verbatim>\<open>any\<close> over a generator stops at the first person for
  whom the condition holds.
\<close>

fun fails_evidence :: "people \<Rightarrow> string list \<Rightarrow> string list \<Rightarrow> error + bool" where
  "fails_evidence people have_trait [] = Inr False"
| "fails_evidence people have_trait (person # names) =
     bind_err (getitem people person) (\<lambda>r.
       if trait r \<noteq> None \<and> trait r \<noteq> Some (person \<in> set have_trait) then Inr True
       else fails_evidence people have_trait names)"

text \<open>
  The state of the enumeration: the table, and a log of the arguments
  \<open>(one_gene, two_genes, have_trait)\<close> of every call of \<^verbatim>\<open>joint_probability\<close> so far. The
  log is not a variable of the program; it records which scenarios are scored.
\<close>

record state =
  probabilities :: table
  scored :: "(string list \<times> string list \<times> string list) list"

definition two_genes_step ::
  "people \<Rightarrow> string list \<Rightarrow> string list \<Rightarrow> string list \<Rightarrow> state \<Rightarrow> error + state" where
  "two_genes_step people have_trait one_gene two_genes st =
     bind_err (joint_probability people one_gene two_genes have_trait) (\<lambda>p.
     bind_err (update (probabilities st) one_gene two_genes have_trait p) (\<lambda>probs.
     Inr \<lparr>probabilities = probs,
          scored = scored st @ [(one_gene, two_genes, have_trait)]\<rparr>))"

definition one_gene_step ::
  "people \<Rightarrow> string list \<Rightarrow> string list \<Rightarrow> string list \<Rightarrow> state \<Rightarrow> error + state" where
  "one_gene_step people names have_trait one_gene st =
     for_each (two_genes_step people have_trait one_gene)
       (powerset (set_minus names one_gene)) st"

definition have_trait_step ::
  "people \<Rightarrow> string list \<Rightarrow> string list \<Rightarrow> state \<Rightarrow> error + state" where
  "have_trait_step people names have_trait st =
     bind_err (fails_evidence people have_trait names) (\<lambda>fails.
       if fails then Inr st
       else for_each (one_gene_step people names have_trait) (powerset names) st)"

definition enumerate_scenarios :: "people \<Rightarrow> error + state" where
  "enumerate_scenarios people =
     (let names = py_set (dict_keys people)
      in for_each (have_trait_step people names) (powerset names)
           \<lparr>probabilities = init_probabilities people, scored = []\<rparr>)"

text \<open>
  \<^verbatim>\<open>main\<close> from the loaded population to the table it prints: the enumeration, then
  \<^verbatim>\<open>normalize\<close>. Reading the file and printing are left out.
\<close>

definition main :: "people \<Rightarrow> error + table" where
  "main people =
     bind_err (enumerate_scenarios people) (\<lambda>st. normalize (probabilities st))"

section \<open>Notions of the specification\<close>

text \<open>A distribution divided by its own sum.\<close>

definition scaled :: "('k, real) dict \<Rightarrow> ('k, real) dict" where
  "scaled d = map (\<lambda>(item, v). (item, v / get_dist_sum d)) d"

text \<open>
  The gene count that a scenario assigns to a person, tested in the order of
  \<^verbatim>\<open>update\<close>; an entry raised by \<open>p\<close> under one key; the table shape that \<^verbatim>\<open>main\<close> creates;
  a sequence of calls of \<^verbatim>\<open>update\<close> and the mass it adds.
\<close>

definition gene_count :: "string list \<Rightarrow> string list \<Rightarrow> string \<Rightarrow> nat" where
  "gene_count one_gene two_genes person =
     (if person \<in> set one_gene then 1 else if person \<in> set two_genes then 2 else 0)"

definition bumped :: "('k, real) dict \<Rightarrow> 'k \<Rightarrow> real \<Rightarrow> ('k, real) dict" where
  "bumped d k p = map (\<lambda>(k', v). (k', if k' = k then v + p else v)) d"

definition well_formed :: "table \<Rightarrow> bool" where
  "well_formed t =
     (\<forall>(person, d) \<in> set t.
        dict_keys (gene_dist d) = [2, 1, 0] \<and> dict_keys (trait_dist d) = [True, False])"

definition updates ::
  "table \<Rightarrow> (string list \<times> string list \<times> string list \<times> real) list \<Rightarrow> error + table" where
  "updates t calls =
     for_each (\<lambda>(one_gene, two_genes, have_trait, p) t'.
        update t' one_gene two_genes have_trait p) calls t"

definition total_mass :: "(string list \<times> string list \<times> string list \<times> real) list \<Rightarrow> real" where
  "total_mass calls = sum_list (map (\<lambda>(one_gene, two_genes, have_trait, p). p) calls)"

definition updated_entry ::
  "string list \<Rightarrow> string list \<Rightarrow> string list \<Rightarrow> real \<Rightarrow> string \<Rightarrow> distribution \<Rightarrow> distribution" where
  "updated_entry one_gene two_genes have_trait p person d =
     d\<lparr>gene_dist := bumped (gene_dist d) (gene_count one_gene two_genes person) p,
       trait_dist := bumped (trait_dist d) (person \<in> set have_trait) p\<rparr>"

text \<open>
  The model of section 4 of the specification: the transmission probability of a parent
  with a given gene count, the prior of a founder, the trait table, and the gene-count
  probability of a person in a scenario. A person is a founder here when the father or the
  mother is not recorded, which is the test of \<^verbatim>\<open>joint_probability\<close>; under the invariant
  of the data model (both parents recorded or none) that is a person without recorded
  parents. \<open>orphaned x\<close> erases the parents of \<open>x\<close>.
\<close>

definition transmission :: "nat \<Rightarrow> real" where
  "transmission c =
     (if c = 2 then 1 - PROBS_mutation
      else if c = 1 then 0.5 * (1 - PROBS_mutation)
      else PROBS_mutation)"

definition gene_prior :: "nat \<Rightarrow> real" where
  "gene_prior c = (if c = 2 then 0.01 else if c = 1 then 0.03 else 0.96)"

definition trait_given :: "nat \<Rightarrow> bool \<Rightarrow> real" where
  "trait_given c t =
     (let pt = (if c = 2 then 0.65 else if c = 1 then 0.56 else 0.01)
      in if t then pt else 1 - pt)"

definition gene_probability :: "person \<Rightarrow> string list \<Rightarrow> string list \<Rightarrow> nat \<Rightarrow> real" where
  "gene_probability r one_gene two_genes c =
     (case (father r, mother r) of
        (Some f, Some m) \<Rightarrow>
          (let pf = transmission (gene_count one_gene two_genes f);
               pm = transmission (gene_count one_gene two_genes m)
           in if c = 0 then (1 - pf) * (1 - pm)
              else if c = 1 then pf * (1 - pm) + pm * (1 - pf)
              else pf * pm)
      | _ \<Rightarrow> gene_prior c)"


text \<open>
  The enumeration of section 4.3 of the specification. A candidate set \<open>have_trait\<close>
  contradicts the evidence when a person observed with the trait is missing from it or a
  person observed without the trait is in it. \<open>partitions\<close> lists the pairs
  \<open>(one_gene, two_genes)\<close> in the order of the two inner loops of \<^verbatim>\<open>main\<close>;
  \<open>scenarios\<close> lists the triples that \<^verbatim>\<open>main\<close> scores, in its order; \<open>unobserved\<close> counts
  the persons without an observed trait; \<open>scenario_weight\<close> is the product of claim C1.
\<close>

definition contradicts :: "people \<Rightarrow> string list \<Rightarrow> bool" where
  "contradicts people have_trait =
     (\<exists>(person, r) \<in> set people.
        (trait r = Some True \<and> person \<notin> set have_trait) \<or>
        (trait r = Some False \<and> person \<in> set have_trait))"

definition partitions :: "string list \<Rightarrow> (string list \<times> string list) list" where
  "partitions names =
     concat (map (\<lambda>one_gene.
               map (\<lambda>two_genes. (one_gene, two_genes)) (powerset (set_minus names one_gene)))
             (powerset names))"

definition scenarios :: "people \<Rightarrow> (string list \<times> string list \<times> string list) list" where
  "scenarios people =
     (let names = py_set (dict_keys people)
      in concat (map (\<lambda>have_trait.
                   if contradicts people have_trait then []
                   else map (\<lambda>(one_gene, two_genes). (one_gene, two_genes, have_trait))
                          (partitions names))
                 (powerset names)))"

definition unobserved :: "people \<Rightarrow> nat" where
  "unobserved people = length (filter (\<lambda>(person, r). trait r = None) people)"

definition scenario_weight :: "people \<Rightarrow> string list \<times> string list \<times> string list \<Rightarrow> real" where
  "scenario_weight people = (\<lambda>(one_gene, two_genes, have_trait).
     prod_list (map (\<lambda>(nm, r).
        gene_probability r one_gene two_genes (gene_count one_gene two_genes nm) *
        trait_given (gene_count one_gene two_genes nm) (nm \<in> set have_trait)) people))"

definition weighted ::
  "people \<Rightarrow> (string list \<times> string list \<times> string list) list \<Rightarrow>
   (string list \<times> string list \<times> string list \<times> real) list" where
  "weighted people l =
     map (\<lambda>(one_gene, two_genes, have_trait).
            (one_gene, two_genes, have_trait,
             scenario_weight people (one_gene, two_genes, have_trait))) l"

definition valid_scenario :: "people \<Rightarrow> string list \<times> string list \<times> string list \<Rightarrow> bool" where
  "valid_scenario people = (\<lambda>(one_gene, two_genes, have_trait).
     distinct one_gene \<and> distinct two_genes \<and>
     set one_gene \<subseteq> set (dict_keys people) \<and> set two_genes \<subseteq> set (dict_keys people) \<and>
     set one_gene \<inter> set two_genes = {})"

text \<open>The body of the innermost loop of \<^verbatim>\<open>main\<close>, on a triple.\<close>

definition score_step ::
  "people \<Rightarrow> string list \<times> string list \<times> string list \<Rightarrow> state \<Rightarrow> error + state" where
  "score_step people = (\<lambda>(one_gene, two_genes, have_trait).
     two_genes_step people have_trait one_gene two_genes)"


section \<open>Loops and dicts\<close>

lemma fold_sum_acc: "fold (\<lambda>(item, v) sum_acc. sum_acc + v) d (a::real) = a + sum_list (map snd d)"
  by (induction d arbitrary: a) (auto simp: algebra_simps)

lemma get_dist_sum_sum_list: "get_dist_sum d = sum_list (map snd d)"
  by (simp add: get_dist_sum_def fold_sum_acc)

lemma for_items_Inr:
  "(\<And>k v. (k, v) \<in> set d \<Longrightarrow> body k v = Inr (f k v)) \<Longrightarrow>
   for_items body d = Inr (map (\<lambda>(k, v). (k, f k v)) d)"
  by (induction d) auto



lemma normalize_dist_nonzero:
  "get_dist_sum d \<noteq> 0 \<Longrightarrow> normalize_dist d = Inr (scaled d)"
  unfolding normalize_dist_def scaled_def Let_def
  by (rule for_items_Inr) simp



lemma sum_list_map_divide: "sum_list (map (\<lambda>x. f x / c) xs) = sum_list (map f xs) / (c::real)"
  by (induction xs) (auto simp: add_divide_distrib)

lemma sum_scaled: "get_dist_sum d \<noteq> 0 \<Longrightarrow> get_dist_sum (scaled d) = 1"
proof -
  assume nz: "get_dist_sum d \<noteq> 0"
  have "get_dist_sum (scaled d) = sum_list (map (\<lambda>kv. snd kv / get_dist_sum d) d)"
    by (simp add: get_dist_sum_sum_list scaled_def case_prod_unfold comp_def)
  also have "\<dots> = sum_list (map snd d) / get_dist_sum d"
    by (rule sum_list_map_divide)
  finally show ?thesis using nz by (simp add: get_dist_sum_sum_list)
qed

lemma keys_scaled: "dict_keys (scaled d) = dict_keys d"
  by (simp add: scaled_def dict_keys_def case_prod_unfold comp_def)

lemma scaled_one: "get_dist_sum d = 1 \<Longrightarrow> scaled d = d"
  by (simp add: scaled_def map_idI case_prod_unfold)


lemma normalize_Inr:
  assumes "\<forall>(person, d) \<in> set probs.
             get_dist_sum (gene_dist d) \<noteq> 0 \<and> get_dist_sum (trait_dist d) \<noteq> 0"
  shows "normalize probs =
         Inr (map (\<lambda>(person, d).
                (person, d\<lparr>gene_dist := scaled (gene_dist d),
                            trait_dist := scaled (trait_dist d)\<rparr>)) probs)"
  unfolding normalize_def
  by (rule for_items_Inr) (use assms in \<open>auto simp: normalize_dist_nonzero\<close>)



section \<open>The transmission probability\<close>

text \<open>
  Claim C2. With the mutation rate \<open>m = PROBS_mutation = 0.01\<close>, \<^verbatim>\<open>person_prob\<close> is
  \<open>1 - m = 0.99\<close> for a parent in \<^verbatim>\<open>two_genes\<close>, \<open>0.5 * (1 - m) = 0.495\<close> for a parent in
  \<^verbatim>\<open>one_gene\<close> only, and \<open>m = 0.01\<close> for any other parent. For a person with both parents
  recorded, the three loop bodies of \<^verbatim>\<open>joint_probability\<close> are built from the two values
  \<open>pf\<close>, \<open>pm\<close> of \<^verbatim>\<open>person_prob\<close> and their complements \<open>1 - pf\<close>, \<open>1 - pm\<close> alone.
\<close>

theorem person_prob_transmission:
  "person_prob parent one_gene two_genes =
     (if parent \<in> set two_genes then 1 - PROBS_mutation
      else if parent \<in> set one_gene then 0.5 * (1 - PROBS_mutation)
      else PROBS_mutation) \<and>
   PROBS_mutation = 0.01 \<and> 1 - PROBS_mutation = 0.99 \<and>
   0.5 * (1 - PROBS_mutation) = 0.495 \<and>
   (getitem people nm = Inr r \<and> father r = Some f \<and> mother r = Some m \<longrightarrow>
      (let pf = person_prob f one_gene two_genes; pm = person_prob m one_gene two_genes
       in zero_gene_body people one_gene two_genes nm = Inr ((1 - pf) * (1 - pm)) \<and>
          one_gene_body people one_gene two_genes nm = Inr (pf * (1 - pm) + pm * (1 - pf)) \<and>
          two_genes_body people one_gene two_genes nm = Inr (pf * pm)))"
  by (simp add: person_prob_def PROBS_mutation_def zero_gene_body_def one_gene_body_def
        two_genes_body_def Let_def)

theorem person_prob_transmission_witness:
  "person_prob ''James'' [''Harry''] [''James''] = 0.99 \<and>
   person_prob ''Lily'' [''Lily''] [''James''] = 0.495 \<and>
   person_prob ''Lily'' [''Harry''] [''James''] = 0.01 \<and>
   one_gene_body
     [(''Harry'', \<lparr>name = ''Harry'', mother = Some ''Lily'', father = Some ''James'',
                    trait = None\<rparr>)] [''Harry''] [''James''] ''Harry'' =
     Inr (0.99 * (1 - 0.01) + 0.01 * (1 - 0.99))"
  using person_prob_transmission
    [of "''James''" "[''Harry'']" "[''James'']"
        "[(''Harry'', \<lparr>name = ''Harry'', mother = Some ''Lily'', father = Some ''James'',
                    trait = None\<rparr>)]" "''Harry''"
        "\<lparr>name = ''Harry'', mother = Some ''Lily'', father = Some ''James'', trait = None\<rparr>"
        "''James''" "''Lily''"]
    person_prob_transmission [of "''Lily''" "[''Lily'']" "[''James'']"]
    person_prob_transmission [of "''Lily''" "[''Harry'']" "[''James'']"]
  by (simp add: getitem_def person_prob_def one_gene_body_def PROBS_mutation_def Let_def)

section \<open>\<^verbatim>\<open>normalize\<close>\<close>

text \<open>
  Claim C5. On a table in which the gene distribution and the trait distribution of every
  person have a nonzero sum, \<^verbatim>\<open>normalize\<close> returns the table in which each of the two
  distributions is divided, entry by entry, by its own sum: every entry is the old entry over
  the old sum (so the proportions inside a distribution stay), the keys stay, and each
  distribution sums to 1.
\<close>

theorem normalize_divides_by_sum:
  assumes "\<forall>(person, d) \<in> set probs.
             get_dist_sum (gene_dist d) \<noteq> 0 \<and> get_dist_sum (trait_dist d) \<noteq> 0"
  shows "normalize probs =
           Inr (map (\<lambda>(person, d).
                  (person, d\<lparr>gene_dist := scaled (gene_dist d),
                              trait_dist := scaled (trait_dist d)\<rparr>)) probs) \<and>
         (\<forall>(person, d) \<in> set probs.
            get_dist_sum (scaled (gene_dist d)) = 1 \<and>
            get_dist_sum (scaled (trait_dist d)) = 1 \<and>
            dict_keys (scaled (gene_dist d)) = dict_keys (gene_dist d) \<and>
            dict_keys (scaled (trait_dist d)) = dict_keys (trait_dist d))"
  using assms normalize_Inr [OF assms] by (auto simp: sum_scaled keys_scaled)

theorem normalize_divides_by_sum_witness:
  "normalize [(''Harry'', \<lparr>gene_dist = [(2, 1), (1, 1), (0, 2)],
                           trait_dist = [(True, 1), (False, 3)]\<rparr>)] =
     Inr [(''Harry'', \<lparr>gene_dist = [(2, 1 / 4), (1, 1 / 4), (0, 1 / 2)],
                        trait_dist = [(True, 1 / 4), (False, 3 / 4)]\<rparr>)] \<and>
   get_dist_sum [(2::nat, 1 / 4), (1, 1 / 4), (0, 1 / 2)] = 1 \<and>
   get_dist_sum [(True, 1 / 4), (False, 3 / 4)] = 1"
  using normalize_divides_by_sum
    [of "[(''Harry'', \<lparr>gene_dist = [(2, 1), (1, 1), (0, 2)],
                        trait_dist = [(True, 1), (False, 3)]\<rparr>)]"]
  by (simp add: scaled_def get_dist_sum_def)

text \<open>
  Claim C8. \<^verbatim>\<open>normalize\<close> leaves a table unchanged in which every distribution already sums
  to 1; and on every table with nonzero sums, a second \<^verbatim>\<open>normalize\<close> returns the result of
  the first.
\<close>

theorem normalize_idempotent:
  "((\<forall>(person, d) \<in> set probs.
        get_dist_sum (gene_dist d) = 1 \<and> get_dist_sum (trait_dist d) = 1) \<longrightarrow>
      normalize probs = Inr probs) \<and>
   ((\<forall>(person, d) \<in> set probs.
        get_dist_sum (gene_dist d) \<noteq> 0 \<and> get_dist_sum (trait_dist d) \<noteq> 0) \<longrightarrow>
      (\<exists>probs'. normalize probs = Inr probs' \<and> normalize probs' = Inr probs'))"
proof (intro conjI impI)
  assume one: "\<forall>(person, d) \<in> set probs.
                 get_dist_sum (gene_dist d) = 1 \<and> get_dist_sum (trait_dist d) = 1"
  then have "\<forall>(person, d) \<in> set probs.
               get_dist_sum (gene_dist d) \<noteq> 0 \<and> get_dist_sum (trait_dist d) \<noteq> 0"
    by auto
  from normalize_Inr [OF this]
  have "normalize probs =
          Inr (map (\<lambda>(person, d).
                 (person, d\<lparr>gene_dist := scaled (gene_dist d),
                             trait_dist := scaled (trait_dist d)\<rparr>)) probs)" .
  moreover have "map (\<lambda>(person, d).
                 (person, d\<lparr>gene_dist := scaled (gene_dist d),
                             trait_dist := scaled (trait_dist d)\<rparr>)) probs = probs"
    using one by (intro map_idI) (auto simp: scaled_one)
  ultimately show "normalize probs = Inr probs" by simp
next
  let ?n = "\<lambda>(person :: string, d :: distribution).
              (person, d\<lparr>gene_dist := scaled (gene_dist d),
                          trait_dist := scaled (trait_dist d)\<rparr>)"
  assume nz: "\<forall>(person, d) \<in> set probs.
                get_dist_sum (gene_dist d) \<noteq> 0 \<and> get_dist_sum (trait_dist d) \<noteq> 0"
  from normalize_Inr [OF this] have first: "normalize probs = Inr (map ?n probs)" .
  have one: "\<forall>(person, d) \<in> set (map ?n probs).
               get_dist_sum (gene_dist d) \<noteq> 0 \<and> get_dist_sum (trait_dist d) \<noteq> 0"
    using nz by (auto simp: sum_scaled)
  have "map ?n (map ?n probs) = map ?n probs"
    using nz by (auto simp: sum_scaled scaled_one)
  with normalize_Inr [OF one] have "normalize (map ?n probs) = Inr (map ?n probs)"
    by simp
  with first show "\<exists>probs'. normalize probs = Inr probs' \<and> normalize probs' = Inr probs'"
    by blast
qed

theorem normalize_idempotent_witness:
  "get_dist_sum [(2::nat, 1), (1, 1), (0, 2)] \<noteq> 0 \<and>
   get_dist_sum [(True, 1), (False, 3)] \<noteq> 0 \<and>
   (\<exists>probs'.
      normalize [(''Harry'', \<lparr>gene_dist = [(2, 1), (1, 1), (0, 2)],
                              trait_dist = [(True, 1), (False, 3)]\<rparr>)] = Inr probs' \<and>
      normalize probs' = Inr probs') \<and>
   normalize [(''Harry'', \<lparr>gene_dist = [(2, 1 / 4), (1, 1 / 4), (0, 1 / 2)],
                           trait_dist = [(True, 1 / 4), (False, 3 / 4)]\<rparr>)] =
     Inr [(''Harry'', \<lparr>gene_dist = [(2, 1 / 4), (1, 1 / 4), (0, 1 / 2)],
                        trait_dist = [(True, 1 / 4), (False, 3 / 4)]\<rparr>)]"
  using normalize_idempotent
    [of "[(''Harry'', \<lparr>gene_dist = [(2, 1), (1, 1), (0, 2)],
                        trait_dist = [(True, 1), (False, 3)]\<rparr>)]"]
    normalize_idempotent
    [of "[(''Harry'', \<lparr>gene_dist = [(2, 1 / 4), (1, 1 / 4), (0, 1 / 2)],
                        trait_dist = [(True, 1 / 4), (False, 3 / 4)]\<rparr>)]"]
  by (simp add: get_dist_sum_def)



section \<open>\<^verbatim>\<open>update\<close>\<close>

lemma bumped_absent: "k \<notin> set (dict_keys d) \<Longrightarrow> bumped d k p = d"
  by (induction d) (auto simp: bumped_def dict_keys_def)

lemma setitem_bumped:
  "distinct (dict_keys d) \<Longrightarrow> map_of d k = Some v \<Longrightarrow> setitem d k (v + p) = bumped d k p"
proof (induction d)
  case Nil
  then show ?case by simp
next
  case (Cons kv d)
  obtain k' v' where kv: "kv = (k', v')" by (cases kv)
  show ?case
  proof (cases "k' = k")
    case True
    with Cons.prems kv have "k \<notin> set (dict_keys d)" and "v' = v"
      by (auto simp: dict_keys_def)
    with True kv bumped_absent [of k d p] show ?thesis
      by (simp add: bumped_def)
  next
    case False
    with Cons kv show ?thesis by (simp add: bumped_def dict_keys_def)
  qed
qed

lemma dict_add_bumped:
  assumes "distinct (dict_keys d)" and "k \<in> set (dict_keys d)"
  shows "dict_add d k p = Inr (bumped d k p)"
proof -
  from assms(2) obtain v where v: "map_of d k = Some v"
    by (cases "map_of d k") (auto simp: dict_keys_def map_of_eq_None_iff)
  with setitem_bumped [OF assms(1) v] show ?thesis
    by (simp add: dict_add_def getitem_def)
qed

lemma sum_bumped:
  "distinct (dict_keys d) \<Longrightarrow> k \<in> set (dict_keys d) \<Longrightarrow>
   get_dist_sum (bumped d k p) = get_dist_sum d + p"
proof (induction d)
  case Nil
  then show ?case by (simp add: dict_keys_def)
next
  case (Cons kv d)
  obtain k' v' where kv: "kv = (k', v')" by (cases kv)
  show ?case
  proof (cases "k' = k")
    case True
    with Cons.prems kv have "k \<notin> set (dict_keys d)" by (simp add: dict_keys_def)
    from bumped_absent [OF this, of p] have "map (\<lambda>(k', v). (k', if k' = k then v + p else v)) d = d"
      by (simp add: bumped_def)
    with True kv show ?thesis
      by (simp add: get_dist_sum_sum_list bumped_def)
  next
    case False
    with Cons.prems kv have "distinct (dict_keys d)" "k \<in> set (dict_keys d)"
      by (auto simp: dict_keys_def)
    from Cons.IH [OF this] False kv show ?thesis
      by (simp add: get_dist_sum_sum_list bumped_def)
  qed
qed

lemma keys_bumped: "dict_keys (bumped d k p) = dict_keys d"
  by (simp add: bumped_def dict_keys_def case_prod_unfold comp_def)

lemma update_well_formed:
  assumes "well_formed t"
  shows "update t og tg ht p = Inr (map (\<lambda>(person, d). (person, updated_entry og tg ht p person d)) t)"
  unfolding update_def
proof (rule for_items_Inr)
  fix person d
  assume "(person, d) \<in> set t"
  with assms have g: "dict_keys (gene_dist d) = [2, 1, 0]"
    and t: "dict_keys (trait_dist d) = [True, False]"
    by (auto simp: well_formed_def)
  have "dict_add (trait_dist d) (person \<in> set ht) p =
          Inr (bumped (trait_dist d) (person \<in> set ht) p)"
    by (rule dict_add_bumped) (simp_all add: t)
  moreover have "dict_add (gene_dist d) (gene_count og tg person) p =
          Inr (bumped (gene_dist d) (gene_count og tg person) p)"
    by (rule dict_add_bumped) (simp_all add: g gene_count_def)
  ultimately show
    "bind_err (dict_add (trait_dist d) (person \<in> set ht) p) (\<lambda>t.
     bind_err (dict_add (gene_dist d)
                 (if person \<in> set og then 1 else if person \<in> set tg then 2 else 0) p) (\<lambda>g.
     Inr (d\<lparr>gene_dist := g, trait_dist := t\<rparr>))) = Inr (updated_entry og tg ht p person d)"
    by (simp add: gene_count_def updated_entry_def)
qed

lemma updated_entry_props:
  assumes "dict_keys (gene_dist d) = [2, 1, 0]" and "dict_keys (trait_dist d) = [True, False]"
  shows "dict_keys (gene_dist (updated_entry og tg ht p person d)) = [2, 1, 0]"
    and "dict_keys (trait_dist (updated_entry og tg ht p person d)) = [True, False]"
    and "get_dist_sum (gene_dist (updated_entry og tg ht p person d)) =
           get_dist_sum (gene_dist d) + p"
    and "get_dist_sum (trait_dist (updated_entry og tg ht p person d)) =
           get_dist_sum (trait_dist d) + p"
  using assms
  by (simp_all add: updated_entry_def keys_bumped sum_bumped gene_count_def)

lemma updates_invariant:
  assumes "well_formed t"
    and "\<forall>(person, d) \<in> set t. get_dist_sum (gene_dist d) = a \<and> get_dist_sum (trait_dist d) = a"
  shows "\<exists>t'. updates t calls = Inr t' \<and> well_formed t' \<and> dict_keys t' = dict_keys t \<and>
           (\<forall>(person, d) \<in> set t'.
              get_dist_sum (gene_dist d) = a + total_mass calls \<and>
              get_dist_sum (trait_dist d) = a + total_mass calls)"
  using assms
proof (induction calls arbitrary: t a)
  case Nil
  then show ?case by (simp add: updates_def total_mass_def)
next
  case (Cons c calls)
  obtain og tg ht p where c: "c = (og, tg, ht, p)" by (cases c)
  let ?t = "map (\<lambda>(person, d). (person, updated_entry og tg ht p person d)) t"
  have step: "update t og tg ht p = Inr ?t"
    by (rule update_well_formed [OF Cons.prems(1)])
  have wf: "well_formed ?t"
    using Cons.prems(1) by (auto simp: well_formed_def updated_entry_props)
  have sums: "\<forall>(person, d) \<in> set ?t.
      get_dist_sum (gene_dist d) = (a + p) \<and> get_dist_sum (trait_dist d) = (a + p)"
  proof clarify
    fix person' d'
    assume "(person', d') \<in> set ?t"
    then obtain d where d: "(person', d) \<in> set t" and d': "d' = updated_entry og tg ht p person' d"
      by auto
    from d Cons.prems(1) have k: "dict_keys (gene_dist d) = [2, 1, 0]"
      "dict_keys (trait_dist d) = [True, False]"
      by (auto simp: well_formed_def)
    from d Cons.prems(2) have "get_dist_sum (gene_dist d) = a" "get_dist_sum (trait_dist d) = a"
      by auto
    with updated_entry_props(3,4) [OF k, of og tg ht p person'] d'
    show "get_dist_sum (gene_dist d') = a + p \<and> get_dist_sum (trait_dist d') = a + p"
      by simp
  qed
  have keys: "dict_keys ?t = dict_keys t"
    by (simp add: dict_keys_def case_prod_unfold comp_def)
  from Cons.IH [OF wf sums] obtain t' where
    "updates ?t calls = Inr t'" "well_formed t'" "dict_keys t' = dict_keys ?t"
    "\<forall>(person, d) \<in> set t'.
              get_dist_sum (gene_dist d) = a + p + total_mass calls \<and>
              get_dist_sum (trait_dist d) = a + p + total_mass calls"
    by blast
  with step keys c show ?case
    by (auto simp: updates_def total_mass_def algebra_simps)
qed

lemma init_well_formed: "well_formed (init_probabilities people)"
  by (auto simp: well_formed_def init_probabilities_def dict_keys_def)

lemma init_sums:
  "\<forall>(person, d) \<in> set (init_probabilities people).
     get_dist_sum (gene_dist d) = 0 \<and> get_dist_sum (trait_dist d) = 0"
  by (auto simp: init_probabilities_def get_dist_sum_def)

lemma init_keys: "dict_keys (init_probabilities people) = dict_keys people"
  by (simp add: init_probabilities_def dict_keys_def case_prod_unfold comp_def)

text \<open>
  Claim C9. On a table of the shape \<^verbatim>\<open>main\<close> creates, a call of \<^verbatim>\<open>update\<close> raises, for
  every person, the gene entry under the person's assigned gene count and the trait entry
  under the person's membership in \<^verbatim>\<open>have_trait\<close> by \<open>p\<close>, each key occurring once, and no
  other entry. After any sequence of calls that starts from the table of zeros, every
  person's gene entries and trait entries both sum to the total of the weights added.
\<close>

theorem update_mass_invariant:
  "(well_formed t \<longrightarrow>
      update t one_gene two_genes have_trait p =
        Inr (map (\<lambda>(person, d).
               (person,
                d\<lparr>gene_dist := bumped (gene_dist d) (gene_count one_gene two_genes person) p,
                  trait_dist := bumped (trait_dist d) (person \<in> set have_trait) p\<rparr>)) t) \<and>
      (\<forall>(person, d) \<in> set t.
         count_list (dict_keys (gene_dist d)) (gene_count one_gene two_genes person) = 1 \<and>
         count_list (dict_keys (trait_dist d)) (person \<in> set have_trait) = 1)) \<and>
   (\<exists>t'. updates (init_probabilities people) calls = Inr t' \<and>
          well_formed t' \<and> dict_keys t' = dict_keys people \<and>
          (\<forall>(person, d) \<in> set t'.
             get_dist_sum (gene_dist d) = total_mass calls \<and>
             get_dist_sum (trait_dist d) = total_mass calls))"
proof (intro conjI impI)
  assume wf: "well_formed t"
  from update_well_formed [OF this]
  show "update t one_gene two_genes have_trait p =
        Inr (map (\<lambda>(person, d).
               (person,
                d\<lparr>gene_dist := bumped (gene_dist d) (gene_count one_gene two_genes person) p,
                  trait_dist := bumped (trait_dist d) (person \<in> set have_trait) p\<rparr>)) t)"
    by (simp add: updated_entry_def)
  from wf show "\<forall>(person, d) \<in> set t.
         count_list (dict_keys (gene_dist d)) (gene_count one_gene two_genes person) = 1 \<and>
         count_list (dict_keys (trait_dist d)) (person \<in> set have_trait) = 1"
    by (auto simp: well_formed_def gene_count_def)
next
  from updates_invariant [OF init_well_formed init_sums, of people calls]
  show "\<exists>t'. updates (init_probabilities people) calls = Inr t' \<and>
          well_formed t' \<and> dict_keys t' = dict_keys people \<and>
          (\<forall>(person, d) \<in> set t'.
             get_dist_sum (gene_dist d) = total_mass calls \<and>
             get_dist_sum (trait_dist d) = total_mass calls)"
    by (simp add: init_keys)
qed


theorem update_mass_invariant_witness:
  "well_formed (init_probabilities
      [(''Harry'', \<lparr>name = ''Harry'', mother = None, father = None, trait = None\<rparr>)]) \<and>
   update (init_probabilities
      [(''Harry'', \<lparr>name = ''Harry'', mother = None, father = None, trait = None\<rparr>)])
      [''Harry''] [] [] (1 / 2) =
     Inr [(''Harry'', \<lparr>gene_dist = [(2, 0), (1, 1 / 2), (0, 0)],
                        trait_dist = [(True, 0), (False, 1 / 2)]\<rparr>)] \<and>
   updates (init_probabilities
      [(''Harry'', \<lparr>name = ''Harry'', mother = None, father = None, trait = None\<rparr>)])
      [([''Harry''], [], [], 1 / 2), ([], [''Harry''], [''Harry''], 1 / 4)] =
     Inr [(''Harry'', \<lparr>gene_dist = [(2, 1 / 4), (1, 1 / 2), (0, 0)],
                        trait_dist = [(True, 1 / 4), (False, 1 / 2)]\<rparr>)] \<and>
   get_dist_sum [(2::nat, 1 / 4), (1, 1 / 2), (0, 0)] =
     total_mass [([''Harry''], [], [], 1 / 2), ([], [''Harry''], [''Harry''], 1 / 4)] \<and>
   get_dist_sum [(True, 1 / 4), (False, 1 / 2)] =
     total_mass [([''Harry''], [], [], 1 / 2), ([], [''Harry''], [''Harry''], 1 / 4)]"
  using update_mass_invariant
    [of "init_probabilities
      [(''Harry'', \<lparr>name = ''Harry'', mother = None, father = None, trait = None\<rparr>)]"
      "[''Harry'']" "[]" "[]" "1 / 2"
      "[(''Harry'', \<lparr>name = ''Harry'', mother = None, father = None, trait = None\<rparr>)]"
      "[([''Harry''], [], [], 1 / 2), ([], [''Harry''], [''Harry''], 1 / 4)]"]
  by (simp add: well_formed_def init_probabilities_def dict_keys_def updates_def update_def
        dict_add_def getitem_def total_mass_def get_dist_sum_def bumped_def gene_count_def)

section \<open>\<^verbatim>\<open>joint_probability\<close>\<close>

lemma person_prob_transmission_eq:
  "set og \<inter> set tg = {} \<Longrightarrow> person_prob x og tg = transmission (gene_count og tg x)"
  by (auto simp: person_prob_def transmission_def gene_count_def PROBS_mutation_def)

lemma getitem_PROBS_gene:
  "getitem PROBS_gene 0 = Inr (gene_prior 0)"
  "getitem PROBS_gene 1 = Inr (gene_prior 1)"
  "getitem PROBS_gene 2 = Inr (gene_prior 2)"
  "getitem PROBS_gene (Suc 0) = Inr (gene_prior (Suc 0))"
  by (simp_all add: getitem_def PROBS_gene_def gene_prior_def)

lemma bodies_gene_probability:
  assumes "getitem people nm = Inr r" and "set og \<inter> set tg = {}"
  shows "zero_gene_body people og tg nm = Inr (gene_probability r og tg 0)"
    and "one_gene_body people og tg nm = Inr (gene_probability r og tg 1)"
    and "two_genes_body people og tg nm = Inr (gene_probability r og tg 2)"
  using assms(1) person_prob_transmission_eq [OF assms(2)]
  by (auto simp: zero_gene_body_def one_gene_body_def two_genes_body_def gene_probability_def
        getitem_PROBS_gene Let_def split: option.splits)

lemma setitem_append: "k \<notin> set (dict_keys d) \<Longrightarrow> setitem d k v = d @ [(k, v)]"
  by (induction d) (auto simp: dict_keys_def)

lemma fill_loop:
  assumes "distinct names" and "set names \<inter> set (dict_keys d) = {}"
    and "\<And>nm. nm \<in> set names \<Longrightarrow> body nm = Inr (f nm)"
  shows "for_each (\<lambda>nm d. bind_err (body nm) (\<lambda>p. Inr (setitem d nm p))) names d =
         Inr (d @ map (\<lambda>nm. (nm, f nm)) names)"
  using assms
proof (induction names arbitrary: d)
  case Nil
  then show ?case by simp
next
  case (Cons nm names)
  from Cons.prems(2) have "nm \<notin> set (dict_keys d)" by auto
  then have step: "setitem d nm (f nm) = d @ [(nm, f nm)]" by (rule setitem_append)
  have "set names \<inter> set (dict_keys (d @ [(nm, f nm)])) = {}"
    using Cons.prems(1,2) by (auto simp: dict_keys_def)
  with Cons.IH [of "d @ [(nm, f nm)]"] Cons.prems(1,3)
  have "for_each (\<lambda>nm d. bind_err (body nm) (\<lambda>p. Inr (setitem d nm p))) names (d @ [(nm, f nm)]) =
         Inr ((d @ [(nm, f nm)]) @ map (\<lambda>nm. (nm, f nm)) names)"
    by simp
  with step Cons.prems(3) [of nm] show ?case by simp
qed

lemma fill_p_Inr:
  assumes "distinct names" and "\<And>nm. nm \<in> set names \<Longrightarrow> body nm = Inr (f nm)"
  shows "fill_p body names = Inr (map (\<lambda>nm. (nm, f nm)) names)"
  using fill_loop [of names "[]" body f] assms by (simp add: fill_p_def dict_keys_def)

lemma getitem_PROBS_trait:
  "c \<in> {0, 1, 2} \<Longrightarrow>
   bind_err (getitem PROBS_trait c) (\<lambda>row. bind_err (getitem row b) k) = k (trait_given c b)"
  by (auto simp: getitem_def PROBS_trait_def trait_given_def)

lemma product_loop:
  "for_each (\<lambda>(nm, p) product_acc. Inr (product_acc * g nm p)) d (a::real) =
     Inr (a * prod_list (map (\<lambda>(nm, p). g nm p) d))"
  by (induction d arbitrary: a) (auto simp: mult.assoc)

lemma trait_loop:
  assumes "c \<in> {0, 1, 2}"
  shows "for_each (\<lambda>(nm, p) product_acc.
        bind_err (getitem PROBS_trait c) (\<lambda>row.
        bind_err (getitem row (nm \<in> set ht)) (\<lambda>t.
        Inr (product_acc * (p * t))))) d a =
     Inr (a * prod_list (map (\<lambda>(nm, p). p * trait_given c (nm \<in> set ht)) d))"
proof -
  have "(\<lambda>(nm, p) product_acc.
        bind_err (getitem PROBS_trait c) (\<lambda>row.
        bind_err (getitem row (nm \<in> set ht)) (\<lambda>t.
        Inr (product_acc * (p * t))))) =
        (\<lambda>(nm, p) product_acc. Inr (product_acc * (p * trait_given c (nm \<in> set ht))))"
    by (simp add: getitem_PROBS_trait [OF assms])
  then show ?thesis
    by (simp only: product_loop)
qed

lemma trait_prob_Inr:
  "c \<in> {0, 1, 2} \<Longrightarrow>
   trait_prob d c ht = Inr (prod_list (map (\<lambda>(nm, p). p * trait_given c (nm \<in> set ht)) d))"
  by (simp add: trait_prob_def trait_loop)


lemma getitem_key:
  "k \<in> set (dict_keys d) \<Longrightarrow> getitem d k = Inr (the (map_of d k))"
  by (cases "map_of d k") (auto simp: getitem_def dict_keys_def map_of_eq_None_iff)

lemma prod_list_three_groups:
  fixes H :: "'a \<Rightarrow> real"
  assumes "distinct ks" "distinct og" "distinct tg"
    and "set og \<subseteq> set ks" "set tg \<subseteq> set ks" "set og \<inter> set tg = {}"
  shows "prod_list (map H ks) =
         prod_list (map H [nm \<leftarrow> ks. nm \<notin> set og \<and> nm \<notin> set tg]) *
         prod_list (map H og) * prod_list (map H tg)"
proof -
  let ?z = "[nm \<leftarrow> ks. nm \<notin> set og \<and> nm \<notin> set tg]"
  have dz: "distinct ?z" using assms(1) by simp
  have split: "set ks = set ?z \<union> (set og \<union> set tg)"
    using assms(4,5) by auto
  have z: "prod H (set ?z) = prod_list (map H ?z)"
    using dz by (rule prod.distinct_set_conv_list)
  have o: "prod H (set og) = prod_list (map H og)"
    using assms(2) by (rule prod.distinct_set_conv_list)
  have t: "prod H (set tg) = prod_list (map H tg)"
    using assms(3) by (rule prod.distinct_set_conv_list)
  have "prod_list (map H ks) = prod H (set ks)"
    using assms(1) by (rule prod.distinct_set_conv_list [symmetric])
  also have "\<dots> = prod H (set ?z) * prod H (set og \<union> set tg)"
    by (subst split, rule prod.union_disjoint) auto
  also have "prod H (set og \<union> set tg) = prod H (set og) * prod H (set tg)"
    by (rule prod.union_disjoint) (use assms(6) in auto)
  finally show ?thesis
    by (simp only: z o t mult.assoc)
qed

lemma enumerate_three: "enumerate 0 [a, b, c] = [(0, a), (1, b), (2, c)]"
  by (simp add: numeral_2_eq_2)

lemma joint_probability_groups:
  assumes "distinct (dict_keys people)" "distinct og" "distinct tg"
    and "set og \<subseteq> set (dict_keys people)" "set tg \<subseteq> set (dict_keys people)"
    and "set og \<inter> set tg = {}"
  shows "joint_probability people og tg ht =
     Inr (prod_list (map (\<lambda>nm. gene_probability (the (map_of people nm)) og tg
                                 (gene_count og tg nm) *
                               trait_given (gene_count og tg nm) (nm \<in> set ht))
                        (dict_keys people)))"
proof -
  let ?z = "[nm \<leftarrow> dict_keys people. nm \<notin> set og \<and> nm \<notin> set tg]"
  let ?G = "\<lambda>c nm. gene_probability (the (map_of people nm)) og tg c"
  let ?H = "\<lambda>nm. ?G (gene_count og tg nm) nm * trait_given (gene_count og tg nm) (nm \<in> set ht)"
  have zset: "py_set ?z = ?z"
    using assms(1) by (simp add: py_set_def)
  have body: "zero_gene_body people og tg nm = Inr (?G 0 nm)"
    "one_gene_body people og tg nm = Inr (?G 1 nm)"
    "two_genes_body people og tg nm = Inr (?G 2 nm)"
    if "nm \<in> set (dict_keys people)" for nm
    using bodies_gene_probability [OF getitem_key [OF that] assms(6)] by simp_all
  have fo: "fill_p (one_gene_body people og tg) og = Inr (map (\<lambda>nm. (nm, ?G 1 nm)) og)"
    by (rule fill_p_Inr [OF assms(2)]) (use assms(4) body in auto)
  have ft: "fill_p (two_genes_body people og tg) tg = Inr (map (\<lambda>nm. (nm, ?G 2 nm)) tg)"
    by (rule fill_p_Inr [OF assms(3)]) (use assms(5) body in auto)
  have fz: "fill_p (zero_gene_body people og tg) ?z = Inr (map (\<lambda>nm. (nm, ?G 0 nm)) ?z)"
    by (rule fill_p_Inr) (use assms(1) body in auto)
  have po: "prod_list (map (\<lambda>(nm, p). p * trait_given 1 (nm \<in> set ht))
              (map (\<lambda>nm. (nm, ?G 1 nm)) og)) = prod_list (map ?H og)"
    by (rule arg_cong [where f = prod_list]) (auto simp: gene_count_def)
  have pt: "prod_list (map (\<lambda>(nm, p). p * trait_given 2 (nm \<in> set ht))
              (map (\<lambda>nm. (nm, ?G 2 nm)) tg)) = prod_list (map ?H tg)"
    by (rule arg_cong [where f = prod_list]) (use assms(6) in \<open>auto simp: gene_count_def\<close>)
  have pz: "prod_list (map (\<lambda>(nm, p). p * trait_given 0 (nm \<in> set ht))
              (map (\<lambda>nm. (nm, ?G 0 nm)) ?z)) = prod_list (map ?H ?z)"
    by (rule arg_cong [where f = prod_list]) (auto simp: gene_count_def)
  have tz: "trait_prob (map (\<lambda>nm. (nm, ?G 0 nm)) ?z) 0 ht = Inr (prod_list (map ?H ?z))"
    by (subst trait_prob_Inr) (simp_all only: pz insertI1)
  have to: "trait_prob (map (\<lambda>nm. (nm, ?G 1 nm)) og) 1 ht = Inr (prod_list (map ?H og))"
    by (subst trait_prob_Inr) (simp_all only: po insertI1 insertI2)
  have tt: "trait_prob (map (\<lambda>nm. (nm, ?G 2 nm)) tg) 2 ht = Inr (prod_list (map ?H tg))"
    by (subst trait_prob_Inr) (simp_all only: pt insertI1 insertI2)
  have "joint_probability people og tg ht =
          Inr (prod_list (map ?H ?z) * prod_list (map ?H og) * prod_list (map ?H tg))"
    unfolding joint_probability_def Let_def zset fo ft fz
    by (simp only: bind_err.simps enumerate_three for_each.simps case_prod_conv tz to tt mult_1)
  with prod_list_three_groups [OF assms, of ?H] show ?thesis by simp
qed




lemma joint_probability_Inr:
  assumes "distinct (dict_keys people)" "distinct one_gene" "distinct two_genes"
    and "set one_gene \<subseteq> set (dict_keys people)" "set two_genes \<subseteq> set (dict_keys people)"
    and "set one_gene \<inter> set two_genes = {}"
  shows "joint_probability people one_gene two_genes have_trait =
     Inr (prod_list (map (\<lambda>(nm, r).
            gene_probability r one_gene two_genes (gene_count one_gene two_genes nm) *
            trait_given (gene_count one_gene two_genes nm) (nm \<in> set have_trait)) people))"
proof -
  have "map (\<lambda>(nm, r).
            gene_probability r one_gene two_genes (gene_count one_gene two_genes nm) *
            trait_given (gene_count one_gene two_genes nm) (nm \<in> set have_trait)) people =
        map (\<lambda>nm. gene_probability (the (map_of people nm)) one_gene two_genes
                                 (gene_count one_gene two_genes nm) *
                               trait_given (gene_count one_gene two_genes nm) (nm \<in> set have_trait))
                        (dict_keys people)"
    using assms(1) by (auto simp: dict_keys_def)
  with joint_probability_groups [OF assms, of have_trait] show ?thesis by simp
qed


text \<open>
  Claim C1. For a population, a scenario whose sets \<^verbatim>\<open>one_gene\<close> and \<^verbatim>\<open>two_genes\<close> are
  disjoint sets of persons of the population (the others have no copy) and any set
  \<^verbatim>\<open>have_trait\<close>, \<^verbatim>\<open>joint_probability\<close> returns the product, over all persons, of the
  person's gene-count probability and trait probability: for a person with both parents
  recorded, \<open>(1 - pf) * (1 - pm)\<close>, \<open>pf * (1 - pm) + pm * (1 - pf)\<close> or \<open>pf * pm\<close> for 0, 1 or
  2 copies, with \<open>pf\<close> and \<open>pm\<close> the transmission probabilities of the father and the mother
  at their gene counts in the same scenario; for a founder, the prior at the assigned gene
  count; and the entry of the trait table at the assigned gene count and trait value.
\<close>

theorem joint_probability_product:
  assumes "distinct (dict_keys people)" "distinct one_gene" "distinct two_genes"
    and "set one_gene \<subseteq> set (dict_keys people)" "set two_genes \<subseteq> set (dict_keys people)"
    and "set one_gene \<inter> set two_genes = {}"
  shows "joint_probability people one_gene two_genes have_trait =
     Inr (prod_list (map (\<lambda>(nm, r).
            gene_probability r one_gene two_genes (gene_count one_gene two_genes nm) *
            trait_given (gene_count one_gene two_genes nm) (nm \<in> set have_trait)) people))"
  using assms by (rule joint_probability_Inr)

theorem joint_probability_product_witness:
  "joint_probability
     [(''Harry'', \<lparr>name = ''Harry'', mother = Some ''Lily'', father = Some ''James'',
                    trait = None\<rparr>),
      (''James'', \<lparr>name = ''James'', mother = None, father = None, trait = Some True\<rparr>),
      (''Lily'', \<lparr>name = ''Lily'', mother = None, father = None, trait = Some False\<rparr>)]
     [''Harry''] [''James''] [''James''] =
   Inr ((0.99 * (1 - 0.01) + 0.01 * (1 - 0.99)) * 0.44 * (0.01 * 0.65) * (0.96 * 0.99))"
  using joint_probability_product
    [of "[(''Harry'', \<lparr>name = ''Harry'', mother = Some ''Lily'', father = Some ''James'',
                    trait = None\<rparr>),
      (''James'', \<lparr>name = ''James'', mother = None, father = None, trait = Some True\<rparr>),
      (''Lily'', \<lparr>name = ''Lily'', mother = None, father = None, trait = Some False\<rparr>)]"
      "[''Harry'']" "[''James'']" "[''James'']"]
  by (simp add: dict_keys_def gene_probability_def gene_count_def transmission_def
        trait_given_def gene_prior_def PROBS_mutation_def Let_def)



section \<open>\<^verbatim>\<open>powerset\<close> enumerates the sublists\<close>

lemma filter_empty_subseqs: "filter (\<lambda>ys. length ys = 0) (subseqs xs) = [[]]"
  by (induction xs) (auto simp: Let_def filter_map comp_def)

lemma combinations_subseqs:
  "combinations xs r = filter (\<lambda>ys. length ys = r) (subseqs xs)"
proof (induction xs r rule: combinations.induct)
  case (1 xs)
  show ?case by (simp only: combinations.simps filter_empty_subseqs)
next
  case (2 r)
  show ?case by simp
next
  case (3 x xs r)
  then show ?case by (simp add: Let_def filter_map comp_def)
qed

lemma length_subseqs_le: "ys \<in> set (subseqs xs) \<Longrightarrow> length ys \<le> length xs"
  by (induction xs arbitrary: ys) (auto simp: Let_def intro: le_SucI)

lemma mset_concat_filter_length:
  "mset (concat (map (\<lambda>r. filter (\<lambda>ys. length ys = r) L) [0..<k])) =
   filter_mset (\<lambda>ys. length ys < k) (mset L)"
proof (induction k)
  case 0
  show ?case by simp
next
  case (Suc k)
  have "filter_mset (\<lambda>ys. length ys < Suc k) (mset L) =
        filter_mset (\<lambda>ys. length ys < k) (mset L) + filter_mset (\<lambda>ys. length ys = k) (mset L)"
    by (rule multiset_eqI) (auto simp: less_Suc_eq)
  with Suc show ?case by simp
qed

lemma mset_powerset: "mset (powerset s) = mset (subseqs s)"
proof -
  have "mset (powerset s) = filter_mset (\<lambda>ys. length ys < length s + 1) (mset (subseqs s))"
    unfolding powerset_def combinations_subseqs by (rule mset_concat_filter_length)
  also have "\<dots> = mset (subseqs s)"
    by (rule filter_mset_eq_conv [THEN iffD2]) (auto dest: length_subseqs_le simp: less_Suc_eq_le)
  finally show ?thesis .
qed

lemma set_powerset: "set (powerset s) = set (subseqs s)"
  using mset_powerset [of s] by (rule mset_eq_setD)

lemma length_powerset: "length (powerset s) = 2 ^ length s"
  using mset_eq_length [OF mset_powerset, of s] by (simp add: length_subseqs)

lemma powerset_Pow: "set ` set (powerset s) = Pow (set s)"
  by (simp add: set_powerset subseqs_powset)

lemma powerset_distinct: "ys \<in> set (powerset s) \<Longrightarrow> distinct s \<Longrightarrow> distinct ys"
  by (simp add: set_powerset subseqs_distinctD)

lemma powerset_subset: "ys \<in> set (powerset s) \<Longrightarrow> set ys \<subseteq> set s"
  using powerset_Pow [of s] by auto

lemma sum_list_powerset:
  fixes f :: "'a list \<Rightarrow> nat"
  shows "sum_list (map f (powerset s)) = sum_list (map f (subseqs s))"
proof -
  have "sum_list (map f (powerset s)) = sum_mset (image_mset f (mset (powerset s)))"
    by (simp flip: sum_mset_sum_list)
  also have "\<dots> = sum_list (map f (subseqs s))"
    by (simp add: mset_powerset flip: sum_mset_sum_list)
  finally show ?thesis .
qed

lemma length_filter_powerset:
  "length (filter P (powerset s)) = length (filter P (subseqs s))"
  by (metis mset_filter mset_powerset size_mset)

section \<open>The enumeration of \<^verbatim>\<open>main\<close>\<close>

lemma for_each_append:
  "for_each body (xs @ ys) s = bind_err (for_each body xs s) (for_each body ys)"
proof (induction xs arbitrary: s)
  case Nil
  show ?case by simp
next
  case (Cons x xs)
  show ?case by (cases "body x s") (simp_all add: Cons.IH)
qed

lemma for_each_concat:
  "for_each (\<lambda>x. for_each body (g x)) xs s = for_each body (concat (map g xs)) s"
proof (induction xs arbitrary: s)
  case Nil
  show ?case by simp
next
  case (Cons x xs)
  show ?case
    by (cases "for_each body (g x) s") (simp_all add: for_each_append Cons.IH)
qed

lemma for_each_map: "for_each body (map f xs) s = for_each (\<lambda>x. body (f x)) xs s"
proof (induction xs arbitrary: s)
  case Nil
  show ?case by simp
next
  case (Cons x xs)
  show ?case by (cases "body (f x) s") (simp_all add: Cons.IH)
qed

lemma one_gene_step_flat:
  "one_gene_step people names ht =
   (\<lambda>og. for_each (score_step people)
            (map (\<lambda>tg. (og, tg, ht)) (powerset (set_minus names og))))"
  by (intro ext) (simp add: one_gene_step_def for_each_map score_step_def)

lemma partitions_with_trait:
  "map (\<lambda>(og, tg). (og, tg, ht)) (partitions names) =
   concat (map (\<lambda>og. map (\<lambda>tg. (og, tg, ht)) (powerset (set_minus names og))) (powerset names))"
  by (simp add: partitions_def map_concat comp_def)

lemma have_trait_step_flat:
  assumes "fails_evidence people ht names = Inr b"
  shows "have_trait_step people names ht st =
     for_each (score_step people)
       (if b then [] else map (\<lambda>(og, tg). (og, tg, ht)) (partitions names)) st"
  unfolding have_trait_step_def assms partitions_with_trait
  by (simp add: one_gene_step_flat for_each_concat)

lemma fails_evidence_names:
  assumes "set ns \<subseteq> set (dict_keys people)"
  shows "fails_evidence people ht ns =
     Inr (\<exists>person \<in> set ns. \<exists>r. map_of people person = Some r \<and>
            trait r \<noteq> None \<and> trait r \<noteq> Some (person \<in> set ht))"
  using assms
proof (induction ns)
  case Nil
  show ?case by simp
next
  case (Cons person ns)
  then have "person \<in> set (dict_keys people)" by simp
  then obtain r where r: "map_of people person = Some r"
    by (cases "map_of people person") (auto simp: dict_keys_def map_of_eq_None_iff)
  with Cons show ?case by (auto simp: getitem_def)
qed

lemma fails_evidence_contradicts:
  assumes "distinct (dict_keys people)"
  shows "fails_evidence people ht (dict_keys people) = Inr (contradicts people ht)"
proof -
  let ?bad = "\<lambda>person r. trait r \<noteq> None \<and> trait r \<noteq> Some (person \<in> set ht)"
  have bad: "?bad person r \<longleftrightarrow>
      (trait r = Some True \<and> person \<notin> set ht) \<or> (trait r = Some False \<and> person \<in> set ht)"
    for person r
    by (cases "trait r") auto
  have "(\<exists>person \<in> set (dict_keys people). \<exists>r. map_of people person = Some r \<and> ?bad person r) =
        (\<exists>(person, r) \<in> set people. ?bad person r)"
  proof
    assume "\<exists>person \<in> set (dict_keys people). \<exists>r. map_of people person = Some r \<and> ?bad person r"
    then obtain person r where "map_of people person = Some r" "?bad person r" by blast
    then have "(person, r) \<in> set people" "?bad person r" by (auto dest: map_of_SomeD)
    then show "\<exists>(person, r) \<in> set people. ?bad person r" by blast
  next
    assume "\<exists>(person, r) \<in> set people. ?bad person r"
    then obtain person r where m: "(person, r) \<in> set people" and b: "?bad person r" by blast
    from m assms have "map_of people person = Some r" by (simp add: dict_keys_def)
    moreover from m have "person \<in> set (dict_keys people)" by (force simp: dict_keys_def)
    ultimately show "\<exists>person \<in> set (dict_keys people). \<exists>r. map_of people person = Some r \<and> ?bad person r"
      using b by blast
  qed
  also have "\<dots> = contradicts people ht"
    unfolding contradicts_def by (simp only: bad)
  finally show ?thesis
    using fails_evidence_names [of "dict_keys people" people ht] by simp
qed

lemma well_formed_update:
  assumes "well_formed t"
  shows "\<exists>t'. update t og tg ht p = Inr t' \<and> well_formed t'"
proof -
  have "well_formed (map (\<lambda>(person, d). (person, updated_entry og tg ht p person d)) t)"
    using assms by (auto simp: well_formed_def updated_entry_props)
  with update_well_formed [OF assms] show ?thesis by blast
qed

lemma updates_Cons:
  "updates t ((og, tg, ht, p) # calls) = bind_err (update t og tg ht p) (\<lambda>t'. updates t' calls)"
  by (simp add: updates_def)

lemma score_all:
  assumes "distinct (dict_keys people)"
    and "well_formed (probabilities st)"
    and "\<forall>c \<in> set l. valid_scenario people c"
  shows "\<exists>P. updates (probabilities st) (weighted people l) = Inr P \<and> well_formed P \<and>
             for_each (score_step people) l st = Inr \<lparr>probabilities = P, scored = scored st @ l\<rparr>"
  using assms(2,3)
proof (induction l arbitrary: st)
  case Nil
  then show ?case by (simp add: updates_def weighted_def)
next
  case (Cons c l)
  obtain og tg ht where c: "c = (og, tg, ht)" by (cases c)
  from Cons.prems(2) c have v: "distinct og" "distinct tg" "set og \<subseteq> set (dict_keys people)"
    "set tg \<subseteq> set (dict_keys people)" "set og \<inter> set tg = {}"
    by (simp_all add: valid_scenario_def)
  have jp: "joint_probability people og tg ht = Inr (scenario_weight people (og, tg, ht))"
    using joint_probability_Inr [OF assms(1) v] by (simp add: scenario_weight_def)
  from well_formed_update [OF Cons.prems(1)] obtain t' where
    t': "update (probabilities st) og tg ht (scenario_weight people (og, tg, ht)) = Inr t'"
    and wf: "well_formed t'"
    by blast
  let ?st = "\<lparr>probabilities = t', scored = scored st @ [(og, tg, ht)]\<rparr>"
  have step: "score_step people c st = Inr ?st"
    by (simp add: c score_step_def two_genes_step_def jp t')
  from Cons.IH [of ?st] wf Cons.prems(2) obtain P where
    P: "updates t' (weighted people l) = Inr P" "well_formed P"
      "for_each (score_step people) l ?st = Inr \<lparr>probabilities = P, scored = scored ?st @ l\<rparr>"
    by auto
  have "updates (probabilities st) (weighted people (c # l)) = Inr P"
    using P(1) t' by (simp add: c weighted_def updates_Cons)
  moreover have "for_each (score_step people) (c # l) st =
      Inr \<lparr>probabilities = P, scored = scored st @ c # l\<rparr>"
    using P(3) step by (simp add: c)
  ultimately show ?case using P(2) by blast
qed

lemma set_minus_props:
  "distinct s \<Longrightarrow> distinct (set_minus s t)" "set (set_minus s t) = set s - set t"
  by (auto simp: set_minus_def)

lemma partitions_valid:
  assumes "distinct names" and "(og, tg) \<in> set (partitions names)"
  shows "distinct og \<and> distinct tg \<and> set og \<subseteq> set names \<and> set tg \<subseteq> set names \<and>
         set og \<inter> set tg = {}"
proof -
  from assms(2) have og: "og \<in> set (powerset names)"
    and tg: "tg \<in> set (powerset (set_minus names og))"
    by (auto simp: partitions_def)
  from powerset_subset [OF tg] have "set tg \<subseteq> set names - set og"
    by (simp add: set_minus_props)
  with powerset_distinct [OF og assms(1)] powerset_subset [OF og]
    powerset_distinct [OF tg set_minus_props(1) [OF assms(1)]]
  show ?thesis by auto
qed

lemma scenarios_valid:
  assumes "distinct (dict_keys people)" and "c \<in> set (scenarios people)"
  shows "valid_scenario people c \<and> \<not> contradicts people (snd (snd c))"
proof -
  from assms(1) have names: "py_set (dict_keys people) = dict_keys people"
    by (simp add: py_set_def)
  obtain og tg ht where c: "c = (og, tg, ht)" by (cases c)
  with assms(2) have "(og, tg) \<in> set (partitions (dict_keys people))"
    and nc: "\<not> contradicts people ht"
    by (auto simp: scenarios_def names Let_def split: if_splits)
  from partitions_valid [OF assms(1) this(1)] nc c show ?thesis
    by (simp add: valid_scenario_def)
qed

lemma enumerate_scenarios_flat:
  assumes "distinct (dict_keys people)"
  shows "enumerate_scenarios people =
     for_each (score_step people) (scenarios people)
       \<lparr>probabilities = init_probabilities people, scored = []\<rparr>"
proof -
  from assms have names: "py_set (dict_keys people) = dict_keys people"
    by (simp add: py_set_def)
  have "have_trait_step people (dict_keys people) =
     (\<lambda>ht. for_each (score_step people)
        (if contradicts people ht then []
         else map (\<lambda>(og, tg). (og, tg, ht)) (partitions (dict_keys people))))"
    by (intro ext) (rule have_trait_step_flat [OF fails_evidence_contradicts [OF assms]])
  then show ?thesis
    by (simp add: enumerate_scenarios_def scenarios_def names Let_def for_each_concat)
qed

lemma enumerate_scenarios_Inr:
  assumes "distinct (dict_keys people)"
  shows "\<exists>P. updates (init_probabilities people) (weighted people (scenarios people)) = Inr P \<and>
             well_formed P \<and>
             enumerate_scenarios people = Inr \<lparr>probabilities = P, scored = scenarios people\<rparr>"
  using score_all [OF assms, of "\<lparr>probabilities = init_probabilities people, scored = []\<rparr>"
      "scenarios people"] scenarios_valid [OF assms]
  by (simp add: enumerate_scenarios_flat [OF assms] init_well_formed)

lemma subseqs_not_member: "og \<in> set (subseqs xs) \<Longrightarrow> x \<notin> set xs \<Longrightarrow> x \<notin> set og"
  using subseqs_powset [of xs] by auto

lemma three_pow_subseqs:
  "distinct xs \<Longrightarrow>
   sum_list (map (\<lambda>og. 2 ^ length (filter (\<lambda>y. y \<notin> set og) xs)) (subseqs xs)) =
     (3::nat) ^ length xs"
proof (induction xs)
  case Nil
  show ?case by simp
next
  case (Cons x xs)
  let ?G = "\<lambda>og. (2::nat) ^ length (filter (\<lambda>y. y \<notin> set og) xs)"
  let ?F = "\<lambda>og. (2::nat) ^ length (filter (\<lambda>y. y \<notin> set og) (x # xs))"
  from Cons.prems have x: "x \<notin> set xs" and d: "distinct xs" by simp_all
  have with_x: "map (\<lambda>og. ?F (x # og)) (subseqs xs) = map ?G (subseqs xs)"
  proof (rule map_cong [OF refl])
    fix og
    have "filter (\<lambda>y. y \<notin> set (x # og)) xs = filter (\<lambda>y. y \<notin> set og) xs"
      using x by (intro filter_cong) auto
    then show "?F (x # og) = ?G og" by simp
  qed
  have without_x: "map ?F (subseqs xs) = map (\<lambda>og. 2 * ?G og) (subseqs xs)"
  proof (rule map_cong [OF refl])
    fix og
    assume "og \<in> set (subseqs xs)"
    from subseqs_not_member [OF this x] show "?F og = 2 * ?G og" by simp
  qed
  have "sum_list (map ?F (subseqs (x # xs))) =
        sum_list (map (\<lambda>og. ?F (x # og)) (subseqs xs)) + sum_list (map ?F (subseqs xs))"
    by (simp add: Let_def comp_def)
  also have "\<dots> = sum_list (map ?G (subseqs xs)) + 2 * sum_list (map ?G (subseqs xs))"
    by (simp only: with_x without_x sum_list_const_mult)
  also have "\<dots> = 3 ^ length (x # xs)"
    using Cons.IH [OF d] by simp
  finally show ?case .
qed

lemma length_partitions:
  assumes "distinct names"
  shows "length (partitions names) = 3 ^ length names"
proof -
  have "length (partitions names) =
        sum_list (map (\<lambda>og. 2 ^ length (filter (\<lambda>y. y \<notin> set og) names)) (powerset names))"
    by (simp add: partitions_def length_concat comp_def length_powerset set_minus_def)
  also have "\<dots> = sum_list (map (\<lambda>og. 2 ^ length (filter (\<lambda>y. y \<notin> set og) names)) (subseqs names))"
    by (rule sum_list_powerset)
  finally show ?thesis by (simp add: three_pow_subseqs [OF assms])
qed

lemma partitions_cover:
  assumes "distinct names"
  shows "(\<lambda>(og, tg). (set og, set tg)) ` set (partitions names) =
         {(A, B). A \<subseteq> set names \<and> B \<subseteq> set names \<and> A \<inter> B = {}}"
proof (intro set_eqI iffI)
  fix p
  assume "p \<in> (\<lambda>(og, tg). (set og, set tg)) ` set (partitions names)"
  then obtain og tg where "p = (set og, set tg)" "(og, tg) \<in> set (partitions names)" by auto
  with partitions_valid [OF assms this(2)]
  show "p \<in> {(A, B). A \<subseteq> set names \<and> B \<subseteq> set names \<and> A \<inter> B = {}}" by simp
next
  fix p
  assume "p \<in> {(A, B). A \<subseteq> set names \<and> B \<subseteq> set names \<and> A \<inter> B = {}}"
  then obtain A B where p: "p = (A, B)" and A: "A \<subseteq> set names" and B: "B \<subseteq> set names"
    and AB: "A \<inter> B = {}" by auto
  from A have "A \<in> set ` set (powerset names)" by (simp add: powerset_Pow)
  then obtain og where og: "og \<in> set (powerset names)" "set og = A" by auto
  from B AB og(2) have "B \<in> set ` set (powerset (set_minus names og))"
    by (auto simp: powerset_Pow set_minus_props)
  then obtain tg where tg: "tg \<in> set (powerset (set_minus names og))" "set tg = B" by auto
  from og(1) tg(1) have "(og, tg) \<in> set (partitions names)"
    by (auto simp: partitions_def)
  with og(2) tg(2) p show "p \<in> (\<lambda>(og, tg). (set og, set tg)) ` set (partitions names)"
    by force
qed

lemma contradicts_Cons:
  "contradicts ((x, r) # ps) ht \<longleftrightarrow>
     (trait r = Some True \<and> x \<notin> set ht) \<or> (trait r = Some False \<and> x \<in> set ht) \<or>
     contradicts ps ht"
  by (auto simp: contradicts_def)

lemma contradicts_other:
  "x \<notin> set (dict_keys ps) \<Longrightarrow> contradicts ps (x # ht) = contradicts ps ht"
proof -
  assume "x \<notin> set (dict_keys ps)"
  then have "\<And>e. e \<in> set ps \<Longrightarrow> fst e \<noteq> x"
    by (auto simp: dict_keys_def)
  then show ?thesis
    unfolding contradicts_def by (intro bex_cong refl) (auto simp: case_prod_unfold)
qed

lemma count_consistent:
  "distinct (dict_keys ps) \<Longrightarrow>
   length (filter (\<lambda>ht. \<not> contradicts ps ht) (subseqs (dict_keys ps))) = 2 ^ unobserved ps"
proof (induction ps)
  case Nil
  show ?case by (simp add: dict_keys_def contradicts_def unobserved_def)
next
  case (Cons e ps)
  obtain x r where e: "e = (x, r)" by (cases e)
  let ?S = "subseqs (dict_keys ps)"
  let ?ok = "\<lambda>ht. \<not> contradicts ps ht"
  from Cons.prems e have x: "x \<notin> set (dict_keys ps)" and d: "distinct (dict_keys ps)"
    by (simp_all add: dict_keys_def)
  have with_x: "filter (\<lambda>ht. \<not> contradicts (e # ps) (x # ht)) ?S =
      (if trait r = Some False then [] else filter ?ok ?S)"
    by (auto simp: e contradicts_Cons contradicts_other [OF x] intro!: filter_cong)
  have without_x: "filter (\<lambda>ht. \<not> contradicts (e # ps) ht) ?S =
      (if trait r = Some True then [] else filter ?ok ?S)"
  proof -
    have "filter (\<lambda>ht. \<not> contradicts (e # ps) ht) ?S =
          filter (\<lambda>ht. trait r \<noteq> Some True \<and> ?ok ht) ?S"
      by (rule filter_cong [OF refl])
         (auto simp: e contradicts_Cons dest: subseqs_not_member [OF _ x])
    then show ?thesis by (cases "trait r = Some True") simp_all
  qed
  have "length (filter (\<lambda>ht. \<not> contradicts (e # ps) ht) (subseqs (dict_keys (e # ps)))) =
        length (filter (\<lambda>ht. \<not> contradicts (e # ps) (x # ht)) ?S) +
        length (filter (\<lambda>ht. \<not> contradicts (e # ps) ht) ?S)"
    by (simp add: e dict_keys_def Let_def filter_map comp_def)
  also have "\<dots> = (if trait r = None then 2 else 1) * length (filter ?ok ?S)"
    unfolding with_x without_x by (cases "trait r") auto
  also have "\<dots> = 2 ^ unobserved (e # ps)"
    using Cons.IH [OF d] by (simp add: e unobserved_def)
  finally show ?case .
qed

lemma sum_list_if_zero:
  "sum_list (map (\<lambda>x. if P x then 0 else c) xs) = (c::nat) * length (filter (\<lambda>x. \<not> P x) xs)"
  by (induction xs) auto

lemma length_scenarios:
  assumes "distinct (dict_keys people)"
  shows "length (scenarios people) = 3 ^ length people * 2 ^ unobserved people"
proof -
  from assms have names: "py_set (dict_keys people) = dict_keys people"
    by (simp add: py_set_def)
  have n: "length (dict_keys people) = length people" by (simp add: dict_keys_def)
  have "length (scenarios people) =
        sum_list (map (\<lambda>ht. if contradicts people ht then 0 else 3 ^ length people)
                    (powerset (dict_keys people)))"
    unfolding scenarios_def names Let_def length_concat map_map comp_def
    by (rule arg_cong [where f = sum_list])
       (auto simp: length_partitions [OF assms] n)
  also have "\<dots> = 3 ^ length people *
        length (filter (\<lambda>ht. \<not> contradicts people ht) (powerset (dict_keys people)))"
    by (rule sum_list_if_zero)
  finally show ?thesis
    by (simp add: length_filter_powerset count_consistent [OF assms])
qed

lemma contradicts_unobserved:
  assumes "\<forall>(person, r) \<in> set people.
             trait r \<noteq> None \<longrightarrow> (person \<in> set ht \<longleftrightarrow> person \<in> set ht')"
  shows "contradicts people ht = contradicts people ht'"
  unfolding contradicts_def using assms by (intro bex_cong refl) auto






text \<open>
  Claim C3. For a population with distinct names: on a candidate \<open>have_trait\<close> that
  contradicts an observed trait, the body of the outer loop of \<^verbatim>\<open>main\<close> returns the state
  as it was, so no accumulator changes and \<^verbatim>\<open>joint_probability\<close> is not called; the
  enumeration ends with the log \<open>scenarios people\<close>, none of whose triples contradicts the
  evidence, and with the table that \<^verbatim>\<open>update\<close> builds from the weights of these triples
  alone; and two candidates that agree on every observed person are both kept or both
  dropped, so persons without an observation are not constrained.
\<close>

theorem evidence_filter:
  assumes "distinct (dict_keys people)"
  shows "(contradicts people have_trait \<longrightarrow>
            have_trait_step people (py_set (dict_keys people)) have_trait st = Inr st) \<and>
         (\<exists>P. enumerate_scenarios people =
                 Inr \<lparr>probabilities = P, scored = scenarios people\<rparr> \<and>
               updates (init_probabilities people) (weighted people (scenarios people)) =
                 Inr P) \<and>
         (\<forall>(one_gene, two_genes, ht) \<in> set (scenarios people). \<not> contradicts people ht) \<and>
         ((\<forall>(person, r) \<in> set people.
              trait r \<noteq> None \<longrightarrow> (person \<in> set ht \<longleftrightarrow> person \<in> set ht')) \<longrightarrow>
            contradicts people ht = contradicts people ht')"
proof (intro conjI impI)
  from assms have names: "py_set (dict_keys people) = dict_keys people"
    by (simp add: py_set_def)
  assume "contradicts people have_trait"
  with have_trait_step_flat [OF fails_evidence_contradicts [OF assms], of have_trait st]
  show "have_trait_step people (py_set (dict_keys people)) have_trait st = Inr st"
    by (simp add: names)
next
  from enumerate_scenarios_Inr [OF assms]
  show "\<exists>P. enumerate_scenarios people =
                 Inr \<lparr>probabilities = P, scored = scenarios people\<rparr> \<and>
               updates (init_probabilities people) (weighted people (scenarios people)) =
                 Inr P"
    by blast
next
  show "\<forall>(one_gene, two_genes, ht) \<in> set (scenarios people). \<not> contradicts people ht"
    using scenarios_valid [OF assms] by fastforce
next
  assume "\<forall>(person, r) \<in> set people.
              trait r \<noteq> None \<longrightarrow> (person \<in> set ht \<longleftrightarrow> person \<in> set ht')"
  then show "contradicts people ht = contradicts people ht'"
    by (rule contradicts_unobserved)
qed

theorem evidence_filter_witness:
  "contradicts
     [(''Harry'', \<lparr>name = ''Harry'', mother = None, father = None, trait = Some True\<rparr>),
      (''Lily'', \<lparr>name = ''Lily'', mother = None, father = None, trait = None\<rparr>)]
     [''Lily''] \<and>
   have_trait_step
     [(''Harry'', \<lparr>name = ''Harry'', mother = None, father = None, trait = Some True\<rparr>),
      (''Lily'', \<lparr>name = ''Lily'', mother = None, father = None, trait = None\<rparr>)]
     [''Harry'', ''Lily''] [''Lily''] \<lparr>probabilities = [], scored = []\<rparr> =
     Inr \<lparr>probabilities = [], scored = []\<rparr> \<and>
   contradicts
     [(''Harry'', \<lparr>name = ''Harry'', mother = None, father = None, trait = Some True\<rparr>),
      (''Lily'', \<lparr>name = ''Lily'', mother = None, father = None, trait = None\<rparr>)]
     [''Harry''] =
   contradicts
     [(''Harry'', \<lparr>name = ''Harry'', mother = None, father = None, trait = Some True\<rparr>),
      (''Lily'', \<lparr>name = ''Lily'', mother = None, father = None, trait = None\<rparr>)]
     [''Harry'', ''Lily'']"
  using evidence_filter
    [of "[(''Harry'', \<lparr>name = ''Harry'', mother = None, father = None, trait = Some True\<rparr>),
      (''Lily'', \<lparr>name = ''Lily'', mother = None, father = None, trait = None\<rparr>)]"
      "[''Lily'']" "\<lparr>probabilities = [], scored = []\<rparr>" "[''Harry'']" "[''Harry'', ''Lily'']"]
  by (simp add: contradicts_def dict_keys_def py_set_def)

text \<open>
  The count of claim C4 fails as soon as a trait is observed: for one founder observed with
  the trait, the enumeration scores three triples, not \<open>6 ^ 1\<close>.
\<close>

theorem enumeration_count_counterexample:
  "map_sum id scored (enumerate_scenarios
     [(''Harry'', \<lparr>name = ''Harry'', mother = None, father = None, trait = Some True\<rparr>)]) =
     Inr [([], [], [''Harry'']), ([], [''Harry''], [''Harry'']), ([''Harry''], [], [''Harry''])] \<and>
   length [([], [], [''Harry'']), ([], [''Harry''], [''Harry'']),
           ([''Harry''], [], [''Harry''])] \<noteq>
     6 ^ length [(''Harry'', \<lparr>name = ''Harry'', mother = None, father = None,
                   trait = Some True\<rparr>)]"
proof -
  let ?P = "[(''Harry'', \<lparr>name = ''Harry'', mother = None, father = None, trait = Some True\<rparr>)]"
  have "distinct (dict_keys ?P)" by (simp add: dict_keys_def)
  from enumerate_scenarios_Inr [OF this]
  have "map_sum id scored (enumerate_scenarios ?P) = Inr (scenarios ?P)" by auto
  moreover have "scenarios ?P =
      [([], [], [''Harry'']), ([], [''Harry''], [''Harry'']), ([''Harry''], [], [''Harry''])]"
    by code_simp
  ultimately show ?thesis by simp
qed

text \<open>
  Claim C4, amended. For a population of \<open>n\<close> persons with distinct names, \<^verbatim>\<open>powerset\<close>
  yields \<open>2 ^ n\<close> candidates that cover every subset of the population; the two inner loops
  run over \<open>3 ^ n\<close> pairs that cover every ordered pair of disjoint subsets; the enumeration
  scores \<open>3 ^ n * 2 ^ u\<close> triples, \<open>u\<close> the number of persons without an observed trait,
  which is \<open>6 ^ n\<close> when no trait is observed.
\<close>

theorem enumeration_count:
  assumes "distinct (dict_keys people)"
  shows "length (powerset (py_set (dict_keys people))) = 2 ^ length people \<and>
         set ` set (powerset (py_set (dict_keys people))) = Pow (set (dict_keys people)) \<and>
         length (partitions (py_set (dict_keys people))) = 3 ^ length people \<and>
         (\<lambda>(one_gene, two_genes). (set one_gene, set two_genes)) `
            set (partitions (py_set (dict_keys people))) =
           {(A, B). A \<subseteq> set (dict_keys people) \<and> B \<subseteq> set (dict_keys people) \<and> A \<inter> B = {}} \<and>
         (\<exists>st. enumerate_scenarios people = Inr st \<and> scored st = scenarios people \<and>
               length (scored st) = 3 ^ length people * 2 ^ unobserved people \<and>
               (unobserved people = length people \<longrightarrow>
                  length (scored st) = 6 ^ length people))"
proof -
  from assms have names: "py_set (dict_keys people) = dict_keys people"
    by (simp add: py_set_def)
  have n: "length (dict_keys people) = length people" by (simp add: dict_keys_def)
  from enumerate_scenarios_Inr [OF assms] obtain P where
    e: "enumerate_scenarios people = Inr \<lparr>probabilities = P, scored = scenarios people\<rparr>"
    by blast
  have "(3::nat) ^ length people * 2 ^ length people = 6 ^ length people"
    by (simp flip: power_mult_distrib)
  with e length_scenarios [OF assms]
  have "\<exists>st. enumerate_scenarios people = Inr st \<and> scored st = scenarios people \<and>
               length (scored st) = 3 ^ length people * 2 ^ unobserved people \<and>
               (unobserved people = length people \<longrightarrow>
                  length (scored st) = 6 ^ length people)"
    by simp
  then show ?thesis
    unfolding names
    by (simp only: length_powerset powerset_Pow length_partitions [OF assms]
          partitions_cover [OF assms] n simp_thms)
qed

theorem enumeration_count_witness:
  "length (powerset (py_set (dict_keys
     [(''Harry'', \<lparr>name = ''Harry'', mother = None, father = None, trait = Some True\<rparr>),
      (''Lily'', \<lparr>name = ''Lily'', mother = None, father = None, trait = None\<rparr>)]))) = 4 \<and>
   length (partitions (py_set (dict_keys
     [(''Harry'', \<lparr>name = ''Harry'', mother = None, father = None, trait = Some True\<rparr>),
      (''Lily'', \<lparr>name = ''Lily'', mother = None, father = None, trait = None\<rparr>)]))) = 9 \<and>
   (\<exists>st. enumerate_scenarios
     [(''Harry'', \<lparr>name = ''Harry'', mother = None, father = None, trait = Some True\<rparr>),
      (''Lily'', \<lparr>name = ''Lily'', mother = None, father = None, trait = None\<rparr>)] = Inr st \<and>
      length (scored st) = 18)"
  using enumeration_count
    [of "[(''Harry'', \<lparr>name = ''Harry'', mother = None, father = None, trait = Some True\<rparr>),
      (''Lily'', \<lparr>name = ''Lily'', mother = None, father = None, trait = None\<rparr>)]"]
  by (auto simp: dict_keys_def unobserved_def)


section \<open>\<^verbatim>\<open>main\<close> returns a normalized table\<close>

text \<open>
  Every scenario has a positive weight and at least one scenario passes the evidence
  filter, so for a population with distinct names no sum is zero when \<^verbatim>\<open>normalize\<close>
  runs: \<^verbatim>\<open>main\<close> raises nothing and every distribution it returns sums to 1.
\<close>

lemma transmission_bounds: "0 < transmission c \<and> transmission c < 1"
  by (simp add: transmission_def PROBS_mutation_def)

lemma gene_probability_pos: "0 < gene_probability r og tg c"
proof (cases "father r")
  case None
  then show ?thesis by (simp add: gene_probability_def gene_prior_def)
next
  case (Some f)
  show ?thesis
  proof (cases "mother r")
    case None
    with Some show ?thesis by (simp add: gene_probability_def gene_prior_def)
  next
    case (Some m)
    let ?pf = "transmission (gene_count og tg f)"
    let ?pm = "transmission (gene_count og tg m)"
    from transmission_bounds [of "gene_count og tg f"] transmission_bounds [of "gene_count og tg m"]
    have b: "0 < ?pf" "0 < 1 - ?pf" "0 < ?pm" "0 < 1 - ?pm" by simp_all
    then have "0 < (1 - ?pf) * (1 - ?pm)" "0 < ?pf * (1 - ?pm) + ?pm * (1 - ?pf)" "0 < ?pf * ?pm"
      by (simp_all add: add_pos_pos)
    with Some \<open>father r = Some f\<close> show ?thesis
      by (simp add: gene_probability_def Let_def)
  qed
qed

lemma trait_given_pos: "0 < trait_given c t"
  by (simp add: trait_given_def Let_def)

lemma prod_list_pos: "(\<And>x. x \<in> set xs \<Longrightarrow> 0 < x) \<Longrightarrow> 0 < prod_list (xs :: real list)"
  by (induction xs) simp_all

lemma scenario_weight_pos: "0 < scenario_weight people c"
proof -
  obtain og tg ht where c: "c = (og, tg, ht)" by (cases c)
  show ?thesis
    unfolding c scenario_weight_def prod.case
    by (rule prod_list_pos) (auto simp: gene_probability_pos trait_given_pos)
qed

lemma total_mass_weighted_pos:
  "l \<noteq> [] \<Longrightarrow> 0 < total_mass (weighted people l)"
proof (induction l)
  case Nil
  then show ?case by simp
next
  case (Cons c l)
  obtain og tg ht where c: "c = (og, tg, ht)" by (cases c)
  have "0 \<le> total_mass (weighted people l)"
  proof (cases "l = []")
    case True
    then show ?thesis by (simp add: total_mass_def weighted_def)
  next
    case False
    with Cons.IH show ?thesis by simp
  qed
  with scenario_weight_pos [of people c] show ?case
    by (simp add: total_mass_def weighted_def c)
qed

lemma scenarios_nonempty:
  assumes "distinct (dict_keys people)"
  shows "scenarios people \<noteq> []"
proof -
  from length_scenarios [OF assms] have "0 < length (scenarios people)" by simp
  then show ?thesis by simp
qed

lemma main_returns:
  assumes "distinct (dict_keys people)"
  shows "\<exists>t. main people = Inr t \<and> dict_keys t = dict_keys people \<and>
            (\<forall>(person, d) \<in> set t.
               get_dist_sum (gene_dist d) = 1 \<and> get_dist_sum (trait_dist d) = 1)"
proof -
  let ?calls = "weighted people (scenarios people)"
  from enumerate_scenarios_Inr [OF assms] obtain P where
    P: "updates (init_probabilities people) ?calls = Inr P"
    and e: "enumerate_scenarios people = Inr \<lparr>probabilities = P, scored = scenarios people\<rparr>"
    by blast
  from updates_invariant [OF init_well_formed init_sums, of people ?calls] P
  have keys: "dict_keys P = dict_keys people"
    and sums: "\<forall>(person, d) \<in> set P.
              get_dist_sum (gene_dist d) = total_mass ?calls \<and>
              get_dist_sum (trait_dist d) = total_mass ?calls"
    by (auto simp: init_keys)
  from total_mass_weighted_pos [OF scenarios_nonempty [OF assms], of people]
  have pos: "total_mass ?calls \<noteq> 0" by simp
  with sums have nz: "\<forall>(person, d) \<in> set P.
      get_dist_sum (gene_dist d) \<noteq> 0 \<and> get_dist_sum (trait_dist d) \<noteq> 0"
    by auto
  let ?t = "map (\<lambda>(person, d). (person, d\<lparr>gene_dist := scaled (gene_dist d),
                            trait_dist := scaled (trait_dist d)\<rparr>)) P"
  from normalize_Inr [OF nz] e have "main people = Inr ?t"
    by (simp add: main_def)
  moreover have "dict_keys ?t = dict_keys people"
    using keys by (simp add: dict_keys_def case_prod_unfold comp_def)
  moreover have "\<forall>(person, d) \<in> set ?t.
               get_dist_sum (gene_dist d) = 1 \<and> get_dist_sum (trait_dist d) = 1"
    using nz by (auto simp: sum_scaled)
  ultimately show ?thesis by blast
qed

end
